theory Spec2Isabelle
  imports Complex_Main
begin

section \<open>Python values and errors\<close>

text \<open>
  The pipeline of \<^verbatim>\<open>mock_ingestion_pipeline.py\<close> works on Python dictionaries whose
  values are untyped. The values a product record carries are modelled by \<open>pyval\<close>:
  \<^verbatim>\<open>None\<close>, a string, or an integer. A Python \<^verbatim>\<open>str\<close> is a sequence of code
  points; the model uses \<open>string\<close>, one \<open>char\<close> per code point, which covers the
  code points below 256.
\<close>

datatype pyval = VNone | VStr string | VInt int

text \<open>The exceptions the code can raise: every one is a built-in of the interpreter.\<close>

datatype error = ValueError | KeyError string | AttributeError

type_synonym product = "string \<rightharpoonup> pyval"

section \<open>Built-ins used by the code\<close>

text \<open>
  \<^verbatim>\<open>str.isspace\<close> on one code point below 256: TAB, LF, VT, FF, CR, the four
  separators FS, GS, RS, US, the space, NEL and the no-break space.
\<close>

definition is_space :: "char \<Rightarrow> bool" where
  "is_space c =
     (let n = (of_char c :: nat)
      in (9 \<le> n \<and> n \<le> 13) \<or> (28 \<le> n \<and> n \<le> 31) \<or> n = 32 \<or> n = 133 \<or> n = 160)"

text \<open>
  \<^verbatim>\<open>text.split()\<close> with no argument: runs of whitespace separate the words, leading
  and trailing whitespace is dropped, no empty word is ever produced. The scanner
  keeps the word read so far in \<open>w\<close>.
\<close>

fun split_scan :: "string \<Rightarrow> string \<Rightarrow> string list" where
  "split_scan w [] = (if w = [] then [] else [w])"
| "split_scan w (c # cs) =
     (if is_space c then (if w = [] then split_scan [] cs else w # split_scan [] cs)
      else split_scan (w @ [c]) cs)"

definition py_split :: "string \<Rightarrow> string list" where
  "py_split text = split_scan [] text"

text \<open>\<^verbatim>\<open>" ".join(ws)\<close>: the words separated by one space each.\<close>

fun join_sp :: "string list \<Rightarrow> string" where
  "join_sp [] = []"
| "join_sp [w] = w"
| "join_sp (w # v # ws) = w @ CHR '' '' # join_sp (v # ws)"

text \<open>
  A slice bound of \<^verbatim>\<open>xs[a:b]\<close> on a list of length \<open>n\<close>: a negative bound counts
  from the end, and the result is clipped to \<open>0..n\<close>.
\<close>

definition slice_bound :: "int \<Rightarrow> nat \<Rightarrow> nat" where
  "slice_bound k n = (if k < 0 then nat (max 0 (k + int n)) else min (nat k) n)"

definition py_slice :: "'a list \<Rightarrow> int \<Rightarrow> int \<Rightarrow> 'a list" where
  "py_slice xs a b =
     (let lo = slice_bound a (length xs); hi = slice_bound b (length xs)
      in take (hi - lo) (drop lo xs))"

text \<open>
  \<^verbatim>\<open>range(start, stop, step)\<close>: a zero step raises \<^verbatim>\<open>ValueError\<close>; a positive step
  counts up while the index is below \<open>stop\<close>, a negative one counts down while it is
  above.
\<close>

function range_up :: "int \<Rightarrow> int \<Rightarrow> int \<Rightarrow> int list" where
  "range_up i stop step =
     (if 0 < step \<and> i < stop then i # range_up (i + step) stop step else [])"
  by pat_completeness auto
termination
  by (relation "measure (\<lambda>(i, stop, step). nat (stop - i))") auto

function range_down :: "int \<Rightarrow> int \<Rightarrow> int \<Rightarrow> int list" where
  "range_down i stop step =
     (if step < 0 \<and> stop < i then i # range_down (i + step) stop step else [])"
  by pat_completeness auto
termination
  by (relation "measure (\<lambda>(i, stop, step). nat (i - stop))") auto

declare range_up.simps [simp del] range_down.simps [simp del]

definition py_range :: "int \<Rightarrow> int \<Rightarrow> int \<Rightarrow> error + int list" where
  "py_range start stop step =
     (if step = 0 then Inl ValueError
      else if 0 < step then Inr (range_up start stop step)
      else Inr (range_down start stop step))"

text \<open>\<^verbatim>\<open>str(n)\<close> for an integer: decimal digits, with a minus sign when negative.\<close>

definition digit_char :: "nat \<Rightarrow> char" where
  "digit_char d = char_of (48 + d)"

function str_nat :: "nat \<Rightarrow> string" where
  "str_nat n = (if n < 10 then [digit_char n] else str_nat (n div 10) @ [digit_char (n mod 10)])"
  by pat_completeness auto
termination
  by (relation "measure (\<lambda>n. n)") auto

declare str_nat.simps [simp del]

definition str_int :: "int \<Rightarrow> string" where
  "str_int i = (if i < 0 then CHR ''-'' # str_nat (nat (- i)) else str_nat (nat i))"

text \<open>What an f-string field \<^verbatim>\<open>{v}\<close> renders for a value.\<close>

fun py_str :: "pyval \<Rightarrow> string" where
  "py_str VNone = ''None''"
| "py_str (VStr s) = s"
| "py_str (VInt i) = str_int i"

text \<open>\<^verbatim>\<open>d.get(k, default)\<close>: the stored value whenever the key is present.\<close>

definition dict_get :: "('k \<rightharpoonup> 'v) \<Rightarrow> 'k \<Rightarrow> 'v \<Rightarrow> 'v" where
  "dict_get d k dflt = (case d k of Some v \<Rightarrow> v | None \<Rightarrow> dflt)"

section \<open>The chunker\<close>

text \<open>
  \<^verbatim>\<open>chunk_text(text, max_words, overlap)\<close>. The loop body
  \<^verbatim>\<open>" ".join(words[i: i + max_words])\<close> runs once for every index of the range;
  the only failure is the range's own \<^verbatim>\<open>ValueError\<close>, raised before the first chunk.
\<close>

definition chunk_text :: "string \<Rightarrow> int \<Rightarrow> int \<Rightarrow> error + string list" where
  "chunk_text text max_words overlap =
     (let words = py_split text;
          step = max_words - overlap
      in case py_range 0 (int (length words)) step of
           Inl e \<Rightarrow> Inl e
         | Inr idxs \<Rightarrow> Inr (map (\<lambda>i. join_sp (py_slice words i (i + max_words))) idxs))"

text \<open>
  The same call on an untyped argument: anything but a string has no \<^verbatim>\<open>split\<close>
  method, and the attribute lookup raises.
\<close>

fun chunk_text_dyn :: "pyval \<Rightarrow> int \<Rightarrow> int \<Rightarrow> error + string list" where
  "chunk_text_dyn (VStr text) max_words overlap = chunk_text text max_words overlap"
| "chunk_text_dyn _ max_words overlap = Inl AttributeError"

section \<open>The mock embedding model\<close>

text \<open>
  \<^verbatim>\<open>MockEmbeddingModel.embed\<close>. Python's string hash is salted per process, so it is
  the parameter \<open>hash\<close>. Every component is an integer between 0 and 96 converted to
  a float, which is exact.
\<close>

definition embed :: "(string \<Rightarrow> int) \<Rightarrow> string \<Rightarrow> real list" where
  "embed hash text =
     (let seed = \<bar>hash text\<bar> mod 1000
      in map (\<lambda>i. real_of_int ((seed * int i) mod 97)) [0..<128])"

section \<open>The mock vector database and the pipeline state\<close>

text \<open>
  The metadata dictionary built for every chunk, the entry the vector database keeps
  under a vector id, and a row of the embeddings table. The keys \<^verbatim>\<open>product_id\<close> and
  \<^verbatim>\<open>chunk_id\<close> occur in both dictionaries, so the fields carry a prefix.
\<close>

record chunk_metadata =
  md_product_id :: pyval
  md_chunk_id :: string
  md_title :: pyval
  md_category :: pyval
  md_price :: pyval

record entry =
  vector :: "real list"
  metadata :: chunk_metadata

record embedding_record =
  er_product_id :: pyval
  er_chunk_id :: string
  text_chunk :: string
  embedding_model :: string
  vector_id :: string

text \<open>
  Everything a \<^verbatim>\<open>ProductIngestionPipeline\<close> object owns or writes to:
  \<^verbatim>\<open>vector_db.store\<close>, \<^verbatim>\<open>products_table\<close>, \<^verbatim>\<open>embeddings_table\<close>, and the lines
  printed so far. \<^verbatim>\<open>uuid.uuid4()\<close> is random; the model takes the sequence of its
  results as the parameter \<open>uuid4\<close> (the string of the k-th draw of the process) and
  counts the draws in \<open>uuid_calls\<close>.
\<close>

record pipeline =
  store :: "string \<rightharpoonup> entry"
  products_table :: "pyval \<rightharpoonup> product"
  embeddings_table :: "embedding_record list"
  uuid_calls :: nat
  stdout :: "string list"

text \<open>\<^verbatim>\<open>MockVectorDB.upsert\<close>: a fresh id is drawn and the entry stored under it.\<close>

definition upsert ::
  "(nat \<Rightarrow> string) \<Rightarrow> real list \<Rightarrow> chunk_metadata \<Rightarrow> pipeline \<Rightarrow> string \<times> pipeline" where
  "upsert uuid4 vec md st =
     (let vid = uuid4 (uuid_calls st)
      in (vid, st\<lparr>uuid_calls := Suc (uuid_calls st),
                   store := (store st)(vid \<mapsto> \<lparr>vector = vec, metadata = md\<rparr>)\<rparr>))"

section \<open>The ingestion pipeline\<close>

text \<open>
  The metadata literal of the loop body; \<open>title\<close> is the value of
  \<^verbatim>\<open>product["title"]\<close>, already looked up.
\<close>

definition build_metadata :: "product \<Rightarrow> pyval \<Rightarrow> pyval \<Rightarrow> nat \<Rightarrow> chunk_metadata" where
  "build_metadata product product_id title idx =
     \<lparr>md_product_id = product_id,
      md_chunk_id = py_str product_id @ ''_'' @ str_nat idx,
      md_title = title,
      md_category = dict_get product ''category'' (VStr ''unknown''),
      md_price = dict_get product ''price'' VNone\<rparr>"

text \<open>The row appended to the embeddings table.\<close>

definition build_record :: "pyval \<Rightarrow> chunk_metadata \<Rightarrow> string \<Rightarrow> string \<Rightarrow> embedding_record" where
  "build_record product_id md chunk vid =
     \<lparr>er_product_id = product_id,
      er_chunk_id = md_chunk_id md,
      text_chunk = chunk,
      embedding_model = ''mock'',
      vector_id = vid\<rparr>"

text \<open>
  One turn of the loop over \<^verbatim>\<open>enumerate(chunks)\<close>: embed, build the metadata (a
  product without \<^verbatim>\<open>title\<close> raises \<^verbatim>\<open>KeyError\<close> here, before the upsert), upsert,
  append the row.
\<close>

definition ingest_chunk ::
  "(string \<Rightarrow> int) \<Rightarrow> (nat \<Rightarrow> string) \<Rightarrow> product \<Rightarrow> pyval \<Rightarrow> nat \<Rightarrow> string \<Rightarrow> pipeline
     \<Rightarrow> error + pipeline" where
  "ingest_chunk hash uuid4 product product_id idx chunk st =
     (let vec = embed hash chunk
      in case product ''title'' of
           None \<Rightarrow> Inl (KeyError ''title'')
         | Some title \<Rightarrow>
             (let md = build_metadata product product_id title idx;
                  (vid, st1) = upsert uuid4 vec md st
              in Inr (st1\<lparr>embeddings_table :=
                            embeddings_table st1 @ [build_record product_id md chunk vid]\<rparr>)))"

text \<open>The loop: an exception leaves the state as the earlier turns made it.\<close>

fun ingest_chunks ::
  "(string \<Rightarrow> int) \<Rightarrow> (nat \<Rightarrow> string) \<Rightarrow> product \<Rightarrow> pyval \<Rightarrow> nat \<Rightarrow> string list \<Rightarrow> pipeline
     \<Rightarrow> error option \<times> pipeline" where
  "ingest_chunks hash uuid4 product product_id idx [] st = (None, st)"
| "ingest_chunks hash uuid4 product product_id idx (chunk # rest) st =
     (case ingest_chunk hash uuid4 product product_id idx chunk st of
        Inl e \<Rightarrow> (Some e, st)
      | Inr st' \<Rightarrow> ingest_chunks hash uuid4 product product_id (Suc idx) rest st')"

text \<open>
  \<^verbatim>\<open>ProductIngestionPipeline.ingest_product\<close>. The default of
  \<^verbatim>\<open>product.get("id", str(uuid.uuid4()))\<close> is evaluated before the lookup, so one id is
  drawn on every call. The product is stored before its description is read. The
  function has no \<^verbatim>\<open>return\<close>: a call that completes yields \<^verbatim>\<open>None\<close> and has
  printed one line. The result pairs the outcome with the state the call leaves.
\<close>

definition ingest_product ::
  "(string \<Rightarrow> int) \<Rightarrow> (nat \<Rightarrow> string) \<Rightarrow> pipeline \<Rightarrow> product \<Rightarrow> (error + pyval) \<times> pipeline" where
  "ingest_product hash uuid4 st product =
     (let fresh = uuid4 (uuid_calls st);
          st0 = st\<lparr>uuid_calls := Suc (uuid_calls st)\<rparr>;
          product_id = dict_get product ''id'' (VStr fresh);
          st1 = st0\<lparr>products_table := (products_table st0)(product_id \<mapsto> product)\<rparr>
      in case product ''description'' of
           None \<Rightarrow> (Inl (KeyError ''description''), st1)
         | Some description \<Rightarrow>
             (case chunk_text_dyn description 100 25 of
                Inl e \<Rightarrow> (Inl e, st1)
              | Inr chunks \<Rightarrow>
                  (case ingest_chunks hash uuid4 product product_id 0 chunks st1 of
                     (Some e, st2) \<Rightarrow> (Inl e, st2)
                   | (None, st2) \<Rightarrow>
                       (Inr VNone,
                        st2\<lparr>stdout := stdout st2 @
                          [''Ingested product: '' @ py_str product_id @ '' with '' @
                           str_nat (length chunks) @ '' chunks'']\<rparr>))))"

text \<open>The product id a call works with: line 62 of the source.\<close>

definition resolved_id :: "(nat \<Rightarrow> string) \<Rightarrow> pipeline \<Rightarrow> product \<Rightarrow> pyval" where
  "resolved_id uuid4 st product = dict_get product ''id'' (VStr (uuid4 (uuid_calls st)))"

text \<open>A pipeline as \<^verbatim>\<open>__init__\<close> leaves it, in a process that has drawn no id yet.\<close>

definition new_pipeline :: pipeline where
  "new_pipeline =
     \<lparr>store = Map.empty, products_table = Map.empty, embeddings_table = [],
      uuid_calls = 0, stdout = []\<rparr>"

section \<open>Vocabulary of the specification\<close>

text \<open>
  The chunk count as the specification words it: the ceiling of
  \<open>max (W - overlap) 0 / (max_words - overlap)\<close> for a text of \<open>W > 0\<close> words, and 0 for
  an empty one. It is compared below with what \<open>chunk_text\<close> returns.
\<close>

definition spec_chunk_count :: "nat \<Rightarrow> int \<Rightarrow> int \<Rightarrow> int" where
  "spec_chunk_count W m ov =
     (if W = 0 then 0 else \<lceil>real_of_int (max (int W - ov) 0) / real_of_int (m - ov)\<rceil>)"

text \<open>The last and the first \<open>n\<close> words of a chunk; a shorter chunk gives all it has.\<close>

definition last_words :: "nat \<Rightarrow> 'a list \<Rightarrow> 'a list" where
  "last_words n ws = drop (length ws - n) ws"

definition first_words :: "nat \<Rightarrow> 'a list \<Rightarrow> 'a list" where
  "first_words n ws = take n ws"

text \<open>
  The rows a call appended to the embeddings table and the vector ids it created, read
  off the states before and after the call.
\<close>

definition appended_records :: "pipeline \<Rightarrow> pipeline \<Rightarrow> embedding_record list" where
  "appended_records st st' = drop (length (embeddings_table st)) (embeddings_table st')"

definition created_entries :: "pipeline \<Rightarrow> pipeline \<Rightarrow> string set" where
  "created_entries st st' = dom (store st') - dom (store st)"

section \<open>Sample data\<close>

text \<open>The product the script ingests when it is run as a program.\<close>

definition sample_description :: string where
  "sample_description =
     ''High quality wireless headphones with active noise '' @
     ''cancellation. Long battery life, comfortable design, deep bass, and clear '' @
     ''sound for travel and work.''"

definition sample_product :: product where
  "sample_product =
     [''id'' \<mapsto> VStr ''P123'',
      ''title'' \<mapsto> VStr ''Noise Cancelling Headphones'',
      ''description'' \<mapsto> VStr sample_description,
      ''category'' \<mapsto> VStr ''electronics'',
      ''price'' \<mapsto> VInt 2999]"

text \<open>
  For the examples: a sequence of pairwise distinct ids in the place of the random
  draws, and a hash function.
\<close>

definition sample_uuid4 :: "nat \<Rightarrow> string" where
  "sample_uuid4 k = replicate (Suc k) CHR ''u''"

definition sample_hash :: "string \<Rightarrow> int" where
  "sample_hash s = int (length s)"

text \<open>
  The state the sample run leaves behind in a new pipeline: one chunk, since the
  description has 22 words.
\<close>

definition sample_result :: pipeline where
  "sample_result =
     \<lparr>store = [''uu'' \<mapsto> \<lparr>vector = embed sample_hash sample_description,
                 metadata = \<lparr>md_product_id = VStr ''P123'', md_chunk_id = ''P123_0'',
                   md_title = VStr ''Noise Cancelling Headphones'',
                   md_category = VStr ''electronics'', md_price = VInt 2999\<rparr>\<rparr>],
      products_table = [VStr ''P123'' \<mapsto> sample_product],
      embeddings_table = [\<lparr>er_product_id = VStr ''P123'', er_chunk_id = ''P123_0'',
         text_chunk = sample_description, embedding_model = ''mock'', vector_id = ''uu''\<rparr>],
      uuid_calls = 2,
      stdout = [''Ingested product: P123 with 1 chunks'']\<rparr>"

section \<open>Ranges\<close>

text \<open>How many indices an upward range yields, and what the k-th one is.\<close>

lemma range_up_length:
  "0 < step \<Longrightarrow> int (length (range_up i stop step)) = max 0 (- ((i - stop) div step))"
proof (induction i stop step rule: range_up.induct)
  case (1 i stop step)
  show ?case
  proof (cases "i < stop")
    case True
    have "(i + step - stop) div step = (i - stop) div step + 1"
      using 1(2) div_add_self2[of step "i - stop"] by (simp add: algebra_simps)
    moreover have "(i - stop) div step < 0"
      using True 1(2) by (simp add: div_neg_pos_less0)
    ultimately show ?thesis
      using True 1 by (subst range_up.simps) simp
  next
    case False
    then have "0 \<le> (i - stop) div step" using 1(2) by (simp add: pos_imp_zdiv_nonneg_iff)
    with False show ?thesis by (subst range_up.simps) simp
  qed
qed

lemma range_up_nth:
  "k < length (range_up i stop step) \<Longrightarrow> range_up i stop step ! k = i + int k * step"
proof (induction i stop step arbitrary: k rule: range_up.induct)
  case (1 i stop step)
  from 1(2) have c: "0 < step \<and> i < stop"
    by (subst (asm) range_up.simps) (simp split: if_splits)
  then have eq: "range_up i stop step = i # range_up (i + step) stop step"
    by (subst range_up.simps) simp
  show ?case
  proof (cases k)
    case 0
    then show ?thesis using eq by simp
  next
    case (Suc j)
    with 1(2) eq have "j < length (range_up (i + step) stop step)" by simp
    from 1(1)[OF c this] show ?thesis using eq Suc by (simp add: algebra_simps)
  qed
qed

section \<open>Splitting, joining and slicing\<close>

lemma split_scan_nospace:
  "\<forall>c\<in>set u. \<not> is_space c \<Longrightarrow> split_scan w (u @ rest) = split_scan (w @ u) rest"
  by (induction u arbitrary: w) simp_all

lemma split_scan_all_space:
  "\<forall>c\<in>set t. is_space c \<Longrightarrow> split_scan [] t = []"
  by (induction t) simp_all

lemma is_space_sp: "is_space CHR '' ''"
  by (simp add: is_space_def)

lemma py_slice_window:
  "0 \<le> i \<Longrightarrow> 0 \<le> m \<Longrightarrow> py_slice xs i (i + m) = take (nat m) (drop (nat i) xs)"
  unfolding py_slice_def slice_bound_def Let_def
  by (cases "nat i \<le> length xs") (auto simp: min_def nat_add_distrib)

lemma split_scan_words_ok:
  "\<forall>c\<in>set w. \<not> is_space c \<Longrightarrow> x \<in> set (split_scan w t) \<Longrightarrow>
   x \<noteq> [] \<and> (\<forall>c\<in>set x. \<not> is_space c)"
proof (induction t arbitrary: w)
  case Nil
  then show ?case by (auto split: if_splits)
next
  case (Cons a t)
  show ?case
  proof (cases "is_space a")
    case True
    show ?thesis
    proof (cases "w = []")
      case True
      with \<open>is_space a\<close> Cons.prems have "x \<in> set (split_scan [] t)" by simp
      then show ?thesis using Cons.IH[of "[]"] by simp
    next
      case False
      with \<open>is_space a\<close> Cons.prems have "x = w \<or> x \<in> set (split_scan [] t)" by simp
      then show ?thesis using Cons.IH[of "[]"] False Cons.prems(1) by auto
    qed
  next
    case False
    with Cons.prems have "x \<in> set (split_scan (w @ [a]) t)" by simp
    moreover have "\<forall>c\<in>set (w @ [a]). \<not> is_space c" using False Cons.prems(1) by simp
    ultimately show ?thesis using Cons.IH[of "w @ [a]"] by blast
  qed
qed

lemma split_join:
  "\<forall>x\<in>set ws. x \<noteq> [] \<and> (\<forall>c\<in>set x. \<not> is_space c) \<Longrightarrow> split_scan [] (join_sp ws) = ws"
proof (induction ws rule: join_sp.induct)
  case 1
  then show ?case by simp
next
  case (2 w)
  then have "split_scan [] (w @ []) = split_scan ([] @ w) []"
    by (intro split_scan_nospace) simp
  with 2 show ?case by simp
next
  case (3 w v ws)
  have "split_scan [] (w @ CHR '' '' # join_sp (v # ws)) = split_scan ([] @ w) (CHR '' '' # join_sp (v # ws))"
    using 3(2) by (intro split_scan_nospace) simp
  then show ?case using 3 by (simp add: is_space_sp)
qed

section \<open>The chunker: what a call returns\<close>

lemma range_down_from_zero: "range_down 0 (int n) step = []"
  by (subst range_down.simps) simp

lemma py_split_words_ok:
  "x \<in> set (py_split text) \<Longrightarrow> x \<noteq> [] \<and> (\<forall>c\<in>set x. \<not> is_space c)"
  unfolding py_split_def using split_scan_words_ok[of "[]" x "text"] by simp

lemma py_split_join_sublist:
  assumes "set ws \<subseteq> set (py_split text)"
  shows "py_split (join_sp ws) = ws"
proof -
  have "\<forall>x\<in>set ws. x \<noteq> [] \<and> (\<forall>c\<in>set x. \<not> is_space c)"
    using assms py_split_words_ok by blast
  then show ?thesis unfolding py_split_def by (rule split_join)
qed

lemma chunk_text_step_pos:
  "ov < m \<Longrightarrow> chunk_text text m ov =
     Inr (map (\<lambda>i. join_sp (py_slice (py_split text) i (i + m)))
            (range_up 0 (int (length (py_split text))) (m - ov)))"
  by (simp add: chunk_text_def py_range_def Let_def)

lemma chunk_text_length:
  assumes "ov < m" and "chunk_text text m ov = Inr cs"
  shows "int (length cs) = - ((- int (length (py_split text))) div (m - ov))"
proof -
  have "0 \<le> - ((- int (length (py_split text))) div (m - ov))"
    using assms(1) div_nonpos_pos_le0[of "- int (length (py_split text))" "m - ov"] by simp
  moreover have "length cs = length (range_up 0 (int (length (py_split text))) (m - ov))"
    using assms by (auto simp: chunk_text_step_pos)
  ultimately show ?thesis
    using assms(1) range_up_length[of "m - ov" 0 "int (length (py_split text))"]
    by simp
qed

lemma chunk_text_nth:
  assumes "0 \<le> ov" "ov < m" "chunk_text text m ov = Inr cs" "k < length cs"
  shows "cs ! k = join_sp (take (nat m) (drop (k * nat (m - ov)) (py_split text)))"
proof -
  let ?r = "range_up 0 (int (length (py_split text))) (m - ov)"
  from assms have cs: "cs = map (\<lambda>i. join_sp (py_slice (py_split text) i (i + m))) ?r"
    by (simp add: chunk_text_step_pos)
  with assms have len: "k < length ?r" by simp
  then have idx: "?r ! k = int k * (m - ov)" using range_up_nth[of k 0] by simp
  have "0 \<le> int k * (m - ov)" using assms(2) by simp
  moreover have "0 \<le> m" using assms by simp
  ultimately have "py_slice (py_split text) (int k * (m - ov)) (int k * (m - ov) + m)
      = take (nat m) (drop (nat (int k * (m - ov))) (py_split text))"
    by (rule py_slice_window)
  moreover have "nat (int k * (m - ov)) = k * nat (m - ov)"
    by (simp add: nat_mult_distrib)
  ultimately show ?thesis
    using len idx cs by simp
qed

lemma chunk_words_nth:
  assumes "0 \<le> ov" "ov < m" "chunk_text text m ov = Inr cs" "k < length cs"
  shows "py_split (cs ! k) = take (nat m) (drop (k * nat (m - ov)) (py_split text))"
proof -
  have "set (take (nat m) (drop (k * nat (m - ov)) (py_split text))) \<subseteq> set (py_split text)"
    using set_take_subset set_drop_subset by fast
  then show ?thesis
    using chunk_text_nth[OF assms] py_split_join_sublist by simp
qed

lemma ceiling_div_int:
  "0 < (s::int) \<Longrightarrow> \<lceil>real_of_int a / real_of_int s\<rceil> = - ((- a) div s)"
  by (simp add: ceiling_divide_eq_div)

lemma range_up_below: "x \<in> set (range_up i stop step) \<Longrightarrow> x < stop"
proof (induction i stop step rule: range_up.induct)
  case (1 i stop step)
  from 1(2) have c: "0 < step \<and> i < stop"
    by (subst (asm) range_up.simps) (simp split: if_splits)
  with 1(2) have "x = i \<or> x \<in> set (range_up (i + step) stop step)"
    by (subst (asm) range_up.simps) simp
  with 1(1)[OF c] c show ?case by auto
qed

lemma chunk_start_below:
  assumes "ov < m" "chunk_text text m ov = Inr cs" "k < length cs"
  shows "k * nat (m - ov) < length (py_split text)"
proof -
  let ?r = "range_up 0 (int (length (py_split text))) (m - ov)"
  from assms have len: "k < length ?r" by (auto simp: chunk_text_step_pos)
  then have "?r ! k = int k * (m - ov)" using range_up_nth[of k 0] by simp
  moreover have "?r ! k < int (length (py_split text))"
    using len range_up_below nth_mem by blast
  ultimately have "int k * (m - ov) < int (length (py_split text))" by simp
  moreover have "int (k * nat (m - ov)) = int k * (m - ov)" using assms(1) by simp
  ultimately show ?thesis by linarith
qed

section \<open>The chunker: properties\<close>

text \<open>
  C1. The specification's count \<open>spec_chunk_count\<close> is not what the loop yields: the
  range runs over all \<open>W\<close> words, not over \<open>W - overlap\<close>. Two words with
  \<open>max_words = 2\<close> and \<open>overlap = 1\<close> give two chunks where the formula says one.
\<close>

theorem chunk_count_counterexample:
  "map_sum id (\<lambda>cs. int (length cs)) (chunk_text ''a b'' 2 1) = Inr 2
   \<and> spec_chunk_count (length (py_split ''a b'')) 2 1 = 1"
  by (simp add: spec_chunk_count_def) code_simp

text \<open>
  C1, as the code has it. For \<open>max_words = m > 0\<close> and \<open>0 \<le> overlap < m\<close> the chunker
  returns exactly \<open>\<lceil>W / (m - overlap)\<rceil>\<close> chunks for a text of \<open>W\<close> words; for
  \<open>W = 0\<close> that is 0.
\<close>

theorem chunk_count:
  assumes "0 < m" "0 \<le> ov" "ov < m"
  shows "\<exists>cs. chunk_text text m ov = Inr cs \<and>
           int (length cs) = \<lceil>real (length (py_split text)) / real_of_int (m - ov)\<rceil>"
proof -
  obtain cs where cs: "chunk_text text m ov = Inr cs"
    using assms(3) by (simp add: chunk_text_step_pos)
  have "\<lceil>real_of_int (int (length (py_split text))) / real_of_int (m - ov)\<rceil>
        = - ((- int (length (py_split text))) div (m - ov))"
    using assms(3) by (intro ceiling_div_int) simp
  with cs chunk_text_length[OF assms(3) cs] show ?thesis by simp
qed

theorem chunk_count_witness:
  "(0::int) < 2 \<and> (0::int) \<le> 1 \<and> (1::int) < 2 \<and>
   (\<exists>cs. chunk_text ''a b c'' 2 1 = Inr cs \<and>
      int (length cs) = \<lceil>real (length (py_split ''a b c'')) / real_of_int (2 - 1)\<rceil>)"
  using chunk_count[of 2 1 "''a b c''"] by simp

text \<open>
  C2. The chunker validates nothing. An overlap above \<open>max_words\<close> makes the step
  negative and the range empty: the call returns no chunk and raises nothing. A
  \<open>max_words\<close> of 0 with a negative overlap returns one empty chunk per word.
\<close>

theorem chunk_text_invalid_counterexample:
  "chunk_text ''a b'' 2 3 = Inr [] \<and> chunk_text ''a b'' 0 (- 1) = Inr ['''', '''']"
  by code_simp

text \<open>
  C2, as the code has it. With \<open>overlap = max_words\<close> the zero step makes
  \<^verbatim>\<open>range\<close> raise \<^verbatim>\<open>ValueError\<close>, for every text; with \<open>overlap > max_words\<close> the
  call returns the empty list; with \<open>overlap < max_words\<close> it returns chunks, whatever
  the sign of \<open>max_words\<close>. The chunker takes and returns no pipeline state, so it
  writes to no store.
\<close>

theorem chunk_text_invalid:
  "chunk_text text m m = Inl ValueError
   \<and> (m < ov \<longrightarrow> chunk_text text m ov = Inr [])
   \<and> (ov < m \<longrightarrow> (\<exists>cs. chunk_text text m ov = Inr cs))"
  by (simp add: chunk_text_def py_range_def range_down_from_zero Let_def)

theorem chunk_text_invalid_witness:
  "chunk_text ''a b'' 2 2 = Inl ValueError
   \<and> ((2::int) < 3 \<and> chunk_text ''a b'' 2 3 = Inr [])
   \<and> ((- 1 :: int) < 0 \<and> (\<exists>cs. chunk_text ''a b'' 0 (- 1) = Inr cs))"
  using chunk_text_invalid[of "''a b''" 2 3] chunk_text_invalid[of "''a b''" 0 "- 1"] by simp

text \<open>
  C4. A text with fewer words than \<open>max_words\<close> may still give several chunks: three
  words with \<open>max_words = 4\<close> and \<open>overlap = 2\<close> give a second chunk that starts at
  word 2.
\<close>

theorem chunk_text_single_counterexample:
  "length (py_split ''a b c'') = 3 \<and> chunk_text ''a b c'' 4 2 = Inr [''a b c'', ''c'']"
  by code_simp

text \<open>
  C4, as the code has it. For \<open>0 \<le> overlap < max_words\<close> and a text of \<open>W\<close> words
  with \<open>0 < W \<le> max_words - overlap\<close> the chunker returns exactly one chunk: all the
  words of the text, in order, joined by single spaces.
\<close>

theorem chunk_text_single:
  assumes "0 \<le> ov" "ov < m" "0 < length (py_split text)"
    and "int (length (py_split text)) \<le> m - ov"
  shows "chunk_text text m ov = Inr [join_sp (py_split text)]"
proof -
  let ?W = "int (length (py_split text))"
  have "range_up (0 + (m - ov)) ?W (m - ov) = []"
    using assms(4) by (subst range_up.simps) simp
  moreover have "0 < m - ov \<and> 0 < ?W" using assms(2,3) by simp
  ultimately have r: "range_up 0 ?W (m - ov) = [0]"
    by (subst range_up.simps) simp
  have "py_slice (py_split text) 0 (0 + m) = take (nat m) (drop (nat 0) (py_split text))"
    using assms by (intro py_slice_window) simp_all
  moreover have "length (py_split text) \<le> nat m" using assms by simp
  ultimately have "py_slice (py_split text) 0 m = py_split text" by simp
  with r show ?thesis using assms(2) by (simp add: chunk_text_step_pos)
qed

theorem chunk_text_single_witness:
  "(0::int) \<le> 2 \<and> (2::int) < 4 \<and> 0 < length (py_split ''a  b'')
   \<and> int (length (py_split ''a  b'')) \<le> 4 - 2
   \<and> chunk_text ''a  b'' 4 2 = Inr [join_sp (py_split ''a  b'')]"
proof -
  have l: "length (py_split ''a  b'') = 2" by code_simp
  show ?thesis using chunk_text_single[of 2 4 "''a  b''"] l by simp
qed

text \<open>
  C8. When the overlap exceeds the step, several trailing chunks are shorter than the
  overlap, not only the final one. Five words with \<open>max_words = 4\<close> and
  \<open>overlap = 3\<close>: chunk 3 is \<open>d e\<close>, it is not the final chunk, and the last three
  words of chunk 2 are not its first three words.
\<close>

theorem chunk_overlap_counterexample:
  "chunk_text ''a b c d e'' 4 3 = Inr [''a b c d'', ''b c d e'', ''c d e'', ''d e'', ''e'']
   \<and> last_words 3 (py_split ''c d e'') \<noteq> first_words 3 (py_split ''d e'')"
proof -
  have "chunk_text ''a b c d e'' 4 3 = Inr [''a b c d'', ''b c d e'', ''c d e'', ''d e'', ''e'']"
    by code_simp
  moreover have "py_split ''c d e'' = [''c'', ''d'', ''e'']" by code_simp
  moreover have "py_split ''d e'' = [''d'', ''e'']" by code_simp
  ultimately show ?thesis by (simp add: last_words_def first_words_def)
qed

text \<open>
  C8, as the code has it. For \<open>0 \<le> overlap < max_words\<close> and consecutive chunks \<open>i\<close>
  and \<open>i + 1\<close> of the output, where chunk \<open>i + 1\<close> has at least \<open>overlap\<close> words, the
  last \<open>overlap\<close> words of chunk \<open>i\<close> are the first \<open>overlap\<close> words of chunk
  \<open>i + 1\<close>.
\<close>

theorem chunk_overlap:
  assumes "0 \<le> ov" "ov < m" "chunk_text text m ov = Inr cs" "Suc i < length cs"
    and "nat ov \<le> length (py_split (cs ! Suc i))"
  shows "last_words (nat ov) (py_split (cs ! i)) = first_words (nat ov) (py_split (cs ! Suc i))"
proof -
  define ws where "ws = py_split text"
  define M where "M = nat m"
  define V where "V = nat ov"
  define S where "S = nat (m - ov)"
  have MS: "M = S + V" using assms(1,2) by (simp add: M_def S_def V_def)
  have a: "py_split (cs ! i) = take M (drop (i * S) ws)"
    using chunk_words_nth[OF assms(1,2,3), of i] assms(4) by (simp add: ws_def M_def S_def)
  have b: "py_split (cs ! Suc i) = take M (drop (Suc i * S) ws)"
    using chunk_words_nth[OF assms(1,2,3,4)] by (simp add: ws_def M_def S_def)
  have "S + i * S < length ws"
    using chunk_start_below[OF assms(2,3,4)] by (simp add: ws_def S_def)
  moreover from assms(5) b have "V \<le> length ws - (S + i * S)" by (simp add: V_def)
  ultimately have full: "M \<le> length ws - i * S" using MS by simp
  then have "length (take M (drop (i * S) ws)) = M" by simp
  then have "last_words V (take M (drop (i * S) ws)) = drop S (take M (drop (i * S) ws))"
    using MS by (simp add: last_words_def)
  also have "\<dots> = take V (drop (S + i * S) ws)"
    using MS by (simp add: drop_take add.commute)
  also have "\<dots> = first_words V (take M (drop (Suc i * S) ws))"
    using MS by (simp add: first_words_def min_def)
  finally show ?thesis using a b by (simp add: V_def)
qed

theorem chunk_overlap_witness:
  "(0::int) \<le> 1 \<and> (1::int) < 2 \<and> chunk_text ''a b c'' 2 1 = Inr [''a b'', ''b c'', ''c'']
   \<and> Suc 0 < length [''a b'', ''b c'', ''c'']
   \<and> nat 1 \<le> length (py_split ([''a b'', ''b c'', ''c''] ! Suc 0))
   \<and> last_words (nat 1) (py_split ([''a b'', ''b c'', ''c''] ! 0))
       = first_words (nat 1) (py_split ([''a b'', ''b c'', ''c''] ! Suc 0))"
proof -
  have c: "chunk_text ''a b c'' 2 1 = Inr [''a b'', ''b c'', ''c'']" by code_simp
  have l: "length (py_split ''b c'') = 2" by code_simp
  show ?thesis
    using chunk_overlap[of 1 2 "''a b c''" "[''a b'', ''b c'', ''c'']" 0] c l by simp
qed

section \<open>The embedding model: properties\<close>

text \<open>
  C9. For every input string the embedding has exactly 128 components, whatever the
  hash function is.
\<close>

theorem embed_length: "length (embed hash text) = 128"
  by (simp add: embed_def)

section \<open>The loop over the chunks\<close>

lemma ingest_chunk_title:
  "product ''title'' = Some t \<Longrightarrow>
   ingest_chunk hash uuid4 product pid idx chunk st =
     Inr (st\<lparr>uuid_calls := Suc (uuid_calls st),
             store := (store st)(uuid4 (uuid_calls st) \<mapsto>
                        \<lparr>vector = embed hash chunk, metadata = build_metadata product pid t idx\<rparr>),
             embeddings_table := embeddings_table st @
                        [build_record pid (build_metadata product pid t idx) chunk
                           (uuid4 (uuid_calls st))]\<rparr>)"
  by (simp add: ingest_chunk_def upsert_def Let_def)

lemma ingest_chunk_no_title:
  "product ''title'' = None \<Longrightarrow>
   ingest_chunk hash uuid4 product pid idx chunk st = Inl (KeyError ''title'')"
  by (simp add: ingest_chunk_def Let_def)

lemma ingest_chunks_frame:
  assumes "product ''title'' = Some t"
  shows "fst (ingest_chunks hash uuid4 product pid idx chunks st) = None
    \<and> uuid_calls (snd (ingest_chunks hash uuid4 product pid idx chunks st))
        = uuid_calls st + length chunks
    \<and> products_table (snd (ingest_chunks hash uuid4 product pid idx chunks st))
        = products_table st
    \<and> stdout (snd (ingest_chunks hash uuid4 product pid idx chunks st)) = stdout st"
  by (induction chunks arbitrary: idx st) (simp_all add: ingest_chunk_title[of product t, OF assms])

lemma ingest_chunks_records:
  assumes "product ''title'' = Some t"
  shows "embeddings_table (snd (ingest_chunks hash uuid4 product pid idx chunks st))
      = embeddings_table st @
        map (\<lambda>j. build_record pid (build_metadata product pid t (idx + j)) (chunks ! j)
                    (uuid4 (uuid_calls st + j))) [0..<length chunks]"
proof (induction chunks arbitrary: idx st)
  case Nil
  then show ?case by simp
next
  case (Cons c cs)
  show ?case
    by (simp add: ingest_chunk_title[of product t, OF assms] Cons.IH map_upt_Suc del: upt_Suc)
qed

lemma ingest_chunks_store_other:
  assumes "product ''title'' = Some t"
    and "k \<notin> uuid4 ` {uuid_calls st ..< uuid_calls st + length chunks}"
  shows "store (snd (ingest_chunks hash uuid4 product pid idx chunks st)) k = store st k"
  using assms(2)
proof (induction chunks arbitrary: idx st)
  case Nil
  then show ?case by simp
next
  case (Cons c cs)
  let ?st1 = "st\<lparr>uuid_calls := Suc (uuid_calls st),
             store := (store st)(uuid4 (uuid_calls st) \<mapsto>
                        \<lparr>vector = embed hash c, metadata = build_metadata product pid t idx\<rparr>),
             embeddings_table := embeddings_table st @
                        [build_record pid (build_metadata product pid t idx) c
                           (uuid4 (uuid_calls st))]\<rparr>"
  from Cons.prems have a: "k \<noteq> uuid4 (uuid_calls st)" by auto
  from Cons.prems have "k \<notin> uuid4 ` {uuid_calls ?st1 ..< uuid_calls ?st1 + length cs}"
    by auto
  from Cons.IH[OF this, of "Suc idx"] a show ?case
    by (simp add: ingest_chunk_title[of product t, OF assms(1)])
qed

lemma ingest_chunks_store_new:
  assumes "product ''title'' = Some t" and "inj uuid4" and "j < length chunks"
  shows "store (snd (ingest_chunks hash uuid4 product pid idx chunks st))
           (uuid4 (uuid_calls st + j))
         = Some \<lparr>vector = embed hash (chunks ! j),
                 metadata = build_metadata product pid t (idx + j)\<rparr>"
  using assms(3)
proof (induction chunks arbitrary: idx st j)
  case Nil
  then show ?case by simp
next
  case (Cons c cs)
  let ?st1 = "st\<lparr>uuid_calls := Suc (uuid_calls st),
             store := (store st)(uuid4 (uuid_calls st) \<mapsto>
                        \<lparr>vector = embed hash c, metadata = build_metadata product pid t idx\<rparr>),
             embeddings_table := embeddings_table st @
                        [build_record pid (build_metadata product pid t idx) c
                           (uuid4 (uuid_calls st))]\<rparr>"
  show ?case
  proof (cases j)
    case 0
    have "uuid4 (uuid_calls st) \<notin> uuid4 ` {uuid_calls ?st1 ..< uuid_calls ?st1 + length cs}"
      using assms(2) by (auto dest: injD)
    from ingest_chunks_store_other[of product t, OF assms(1) this, of hash pid "Suc idx"] 0
    show ?thesis by (simp add: ingest_chunk_title[of product t, OF assms(1)])
  next
    case (Suc i)
    with Cons.prems have "i < length cs" by simp
    from Cons.IH[OF this, of "Suc idx" ?st1] Suc show ?thesis
      by (simp add: ingest_chunk_title[of product t, OF assms(1)])
  qed
qed

section \<open>What a call of the pipeline does\<close>

lemma ingest_chunks_no_title:
  "product ''title'' = None \<Longrightarrow> chunks \<noteq> [] \<Longrightarrow>
   ingest_chunks hash uuid4 product pid idx chunks st = (Some (KeyError ''title''), st)"
  by (cases chunks) (simp_all add: ingest_chunk_no_title)

lemma ingest_chunks_products_table:
  "products_table (snd (ingest_chunks hash uuid4 product pid idx chunks st)) = products_table st"
proof (cases "product ''title''")
  case None
  then show ?thesis
    by (cases "chunks = []") (simp_all add: ingest_chunks_no_title)
next
  case (Some t)
  then show ?thesis using ingest_chunks_frame[of product t] by simp
qed

lemma ingest_chunks_uuid_calls:
  "uuid_calls st \<le> uuid_calls (snd (ingest_chunks hash uuid4 product pid idx chunks st))"
proof (cases "product ''title''")
  case None
  then show ?thesis
    by (cases "chunks = []") (simp_all add: ingest_chunks_no_title)
next
  case (Some t)
  then show ?thesis using ingest_chunks_frame[of product t] by simp
qed

lemma chunk_text_100_25: "\<exists>chunks. chunk_text d 100 25 = Inr chunks"
  by (simp add: chunk_text_step_pos)

lemma chunk_text_blank:
  assumes "\<forall>c\<in>set d. is_space c"
  shows "chunk_text d 100 25 = Inr []"
proof -
  have "py_split d = []" using assms by (simp add: py_split_def split_scan_all_space)
  then show ?thesis by (simp add: chunk_text_step_pos range_up.simps)
qed

lemma ingest_product_unfold:
  "ingest_product hash uuid4 st product =
     (case product ''description'' of
        None \<Rightarrow> (Inl (KeyError ''description''),
                 st\<lparr>uuid_calls := Suc (uuid_calls st),
                    products_table := (products_table st)(resolved_id uuid4 st product \<mapsto> product)\<rparr>)
      | Some description \<Rightarrow>
          (case chunk_text_dyn description 100 25 of
             Inl e \<Rightarrow> (Inl e,
                 st\<lparr>uuid_calls := Suc (uuid_calls st),
                    products_table := (products_table st)(resolved_id uuid4 st product \<mapsto> product)\<rparr>)
           | Inr chunks \<Rightarrow>
               (case ingest_chunks hash uuid4 product (resolved_id uuid4 st product) 0 chunks
                       (st\<lparr>uuid_calls := Suc (uuid_calls st),
                          products_table :=
                            (products_table st)(resolved_id uuid4 st product \<mapsto> product)\<rparr>) of
                  (Some e, st2) \<Rightarrow> (Inl e, st2)
                | (None, st2) \<Rightarrow>
                    (Inr VNone,
                     st2\<lparr>stdout := stdout st2 @
                       [''Ingested product: '' @ py_str (resolved_id uuid4 st product) @ '' with '' @
                        str_nat (length chunks) @ '' chunks'']\<rparr>))))"
  by (simp add: ingest_product_def resolved_id_def Let_def
        split: option.splits sum.splits prod.splits)

lemma ingest_product_success:
  assumes "ingest_product hash uuid4 st product = (Inr r, st')"
  shows "\<exists>d chunks st2. product ''description'' = Some (VStr d)
      \<and> chunk_text d 100 25 = Inr chunks
      \<and> ingest_chunks hash uuid4 product (resolved_id uuid4 st product) 0 chunks
           (st\<lparr>uuid_calls := Suc (uuid_calls st),
              products_table := (products_table st)(resolved_id uuid4 st product \<mapsto> product)\<rparr>)
          = (None, st2)
      \<and> r = VNone
      \<and> st' = st2\<lparr>stdout := stdout st2 @
                       [''Ingested product: '' @ py_str (resolved_id uuid4 st product) @ '' with '' @
                        str_nat (length chunks) @ '' chunks'']\<rparr>"
proof (cases "product ''description''")
  case None
  with assms show ?thesis by (simp add: ingest_product_unfold)
next
  case (Some v)
  show ?thesis
  proof (cases v)
    case (VStr d)
    obtain chunks where c: "chunk_text d 100 25 = Inr chunks"
      using chunk_text_100_25 by blast
    with assms Some VStr show ?thesis
      by (auto simp: ingest_product_unfold split: prod.splits option.splits)
  qed (use assms Some in \<open>simp_all add: ingest_product_unfold\<close>)
qed

lemma ingest_chunks_dom:
  assumes "product ''title'' = Some t"
  shows "dom (store (snd (ingest_chunks hash uuid4 product pid idx chunks st)))
       = dom (store st) \<union> uuid4 ` {uuid_calls st ..< uuid_calls st + length chunks}"
proof (induction chunks arbitrary: idx st)
  case Nil
  then show ?case by simp
next
  case (Cons c cs)
  have "{uuid_calls st ..< uuid_calls st + length (c # cs)}
      = insert (uuid_calls st) {Suc (uuid_calls st) ..< Suc (uuid_calls st) + length cs}"
    by auto
  then show ?case
    by (auto simp add: ingest_chunk_title[of product t, OF assms] Cons.IH split: if_splits)
qed

section \<open>The sample run\<close>

lemma sample_uuid4_inj: "inj sample_uuid4"
proof (rule injI)
  fix x y assume "sample_uuid4 x = sample_uuid4 y"
  then have "length (sample_uuid4 x) = length (sample_uuid4 y)" by simp
  then show "x = y" by (simp add: sample_uuid4_def)
qed

lemma sample_chunks: "chunk_text sample_description 100 25 = Inr [sample_description]"
  by code_simp

lemma str_nat_0: "str_nat 0 = ''0''"
  by code_simp

lemma str_nat_1: "str_nat (Suc 0) = ''1''"
  by code_simp

lemma sample_run:
  "ingest_product sample_hash sample_uuid4 new_pipeline sample_product = (Inr VNone, sample_result)"
  by (simp add: ingest_product_unfold sample_chunks ingest_chunk_def upsert_def Let_def
        resolved_id_def dict_get_def new_pipeline_def str_nat_0 str_nat_1 build_metadata_def
        build_record_def sample_uuid4_def sample_product_def sample_result_def)

lemma ingest_chunks_none:
  assumes "ingest_chunks hash uuid4 product pid idx chunks st = (None, st2)"
  shows "(chunks = [] \<and> st2 = st) \<or> (\<exists>t. product ''title'' = Some t)"
proof (cases "product ''title''")
  case None
  have "chunks = []"
  proof (rule ccontr)
    assume "chunks \<noteq> []"
    from ingest_chunks_no_title[of product, OF None this] assms show False by simp
  qed
  with assms show ?thesis by auto
next
  case (Some t)
  then show ?thesis by blast
qed

section \<open>The pipeline: properties\<close>

text \<open>
  C3. A product without a description does make the call fail, but not before every
  side effect: line 63 has stored the product when line 65 raises. The error is the
  interpreter's \<^verbatim>\<open>KeyError\<close>, and the products table has changed.
\<close>

theorem ingest_missing_description_counterexample:
  "fst (ingest_product sample_hash sample_uuid4 new_pipeline
          [''id'' \<mapsto> VStr ''P1'', ''title'' \<mapsto> VStr ''T'']) = Inl (KeyError ''description'')
   \<and> products_table (snd (ingest_product sample_hash sample_uuid4 new_pipeline
          [''id'' \<mapsto> VStr ''P1'', ''title'' \<mapsto> VStr ''T''])) (VStr ''P1'')
       = Some [''id'' \<mapsto> VStr ''P1'', ''title'' \<mapsto> VStr ''T'']
   \<and> products_table new_pipeline (VStr ''P1'') = None"
  by (simp add: ingest_product_unfold resolved_id_def dict_get_def new_pipeline_def)

text \<open>
  C3, as the code has it. For every product whose \<^verbatim>\<open>description\<close> is absent or
  \<^verbatim>\<open>None\<close> the call fails, with \<^verbatim>\<open>KeyError\<close> when the key is absent and
  \<^verbatim>\<open>AttributeError\<close> when the value is \<^verbatim>\<open>None\<close>; nothing is written to the
  embeddings table or to the vector store, and the products table holds the product under
  the resolved product id.
\<close>

theorem ingest_missing_description:
  assumes "product ''description'' = None \<or> product ''description'' = Some VNone"
  shows "fst (ingest_product hash uuid4 st product)
           = Inl (if product ''description'' = None then KeyError ''description''
                  else AttributeError)
       \<and> embeddings_table (snd (ingest_product hash uuid4 st product)) = embeddings_table st
       \<and> store (snd (ingest_product hash uuid4 st product)) = store st
       \<and> products_table (snd (ingest_product hash uuid4 st product))
           = (products_table st)(resolved_id uuid4 st product \<mapsto> product)"
proof (cases "product ''description''")
  case None
  then show ?thesis by (simp add: ingest_product_unfold)
next
  case (Some v)
  with assms have "product ''description'' = Some VNone" by simp
  then show ?thesis by (simp add: ingest_product_unfold)
qed

theorem ingest_missing_description_witness:
  "([''id'' \<mapsto> VStr ''P1'', ''description'' \<mapsto> VNone] ''description'' = None
      \<or> [''id'' \<mapsto> VStr ''P1'', ''description'' \<mapsto> VNone] ''description'' = Some VNone)
   \<and> fst (ingest_product sample_hash sample_uuid4 new_pipeline
            [''id'' \<mapsto> VStr ''P1'', ''description'' \<mapsto> VNone]) = Inl AttributeError
   \<and> embeddings_table (snd (ingest_product sample_hash sample_uuid4 new_pipeline
            [''id'' \<mapsto> VStr ''P1'', ''description'' \<mapsto> VNone])) = []
   \<and> store (snd (ingest_product sample_hash sample_uuid4 new_pipeline
            [''id'' \<mapsto> VStr ''P1'', ''description'' \<mapsto> VNone])) = Map.empty
   \<and> products_table (snd (ingest_product sample_hash sample_uuid4 new_pipeline
            [''id'' \<mapsto> VStr ''P1'', ''description'' \<mapsto> VNone]))
       = [VStr ''P1'' \<mapsto> [''id'' \<mapsto> VStr ''P1'', ''description'' \<mapsto> VNone]]"
  using ingest_missing_description[of "[''id'' \<mapsto> VStr ''P1'', ''description'' \<mapsto> VNone]"
          sample_hash sample_uuid4 new_pipeline]
  by (simp add: resolved_id_def dict_get_def new_pipeline_def)

text \<open>
  C5. After every successful call the rows appended to the embeddings table and the
  entries created in the vector store are as many as the chunks of the description;
  the vector ids of the rows are pairwise distinct and are exactly the new keys of the
  store; the i-th row and the entry under its vector id carry the same chunk id, which
  is the product id, an underscore and the 0-based index i. The ids drawn from
  \<^verbatim>\<open>uuid4\<close> are taken to be unique: pairwise distinct, and the ones not yet drawn
  not in the store.
\<close>

theorem ingest_linkage:
  assumes inj: "inj uuid4"
    and fresh: "\<forall>k\<ge>uuid_calls st. uuid4 k \<notin> dom (store st)"
    and ok: "ingest_product hash uuid4 st product = (Inr r, st')"
  shows "\<exists>d chunks. product ''description'' = Some (VStr d) \<and> chunk_text d 100 25 = Inr chunks
     \<and> embeddings_table st' = embeddings_table st @ appended_records st st'
     \<and> length (appended_records st st') = length chunks
     \<and> card (created_entries st st') = length chunks
     \<and> distinct (map vector_id (appended_records st st'))
     \<and> vector_id ` set (appended_records st st') = created_entries st st'
     \<and> (\<forall>i<length chunks. \<exists>e.
            store st' (vector_id (appended_records st st' ! i)) = Some e
          \<and> md_chunk_id (metadata e) = er_chunk_id (appended_records st st' ! i)
          \<and> er_chunk_id (appended_records st st' ! i)
              = py_str (resolved_id uuid4 st product) @ ''_'' @ str_nat i)"
proof -
  let ?pid = "resolved_id uuid4 st product"
  let ?st1 = "st\<lparr>uuid_calls := Suc (uuid_calls st),
              products_table := (products_table st)(?pid \<mapsto> product)\<rparr>"
  from ingest_product_success[OF ok] obtain d chunks st2 where
    d: "product ''description'' = Some (VStr d)" and c: "chunk_text d 100 25 = Inr chunks"
    and run: "ingest_chunks hash uuid4 product ?pid 0 chunks ?st1 = (None, st2)"
    and st': "st' = st2\<lparr>stdout := stdout st2 @
                       [''Ingested product: '' @ py_str ?pid @ '' with '' @
                        str_nat (length chunks) @ '' chunks'']\<rparr>"
    by blast
  have e': "embeddings_table st' = embeddings_table st2" and s': "store st' = store st2"
    using st' by simp_all
  from ingest_chunks_none[OF run]
  have "embeddings_table st' = embeddings_table st @ appended_records st st'
     \<and> length (appended_records st st') = length chunks
     \<and> card (created_entries st st') = length chunks
     \<and> distinct (map vector_id (appended_records st st'))
     \<and> vector_id ` set (appended_records st st') = created_entries st st'
     \<and> (\<forall>i<length chunks. \<exists>e.
            store st' (vector_id (appended_records st st' ! i)) = Some e
          \<and> md_chunk_id (metadata e) = er_chunk_id (appended_records st st' ! i)
          \<and> er_chunk_id (appended_records st st' ! i) = py_str ?pid @ ''_'' @ str_nat i)"
  proof (elim disjE conjE exE)
    assume "chunks = []" "st2 = ?st1"
    then show ?thesis
      using e' s' by (simp add: appended_records_def created_entries_def)
  next
    fix t assume t: "product ''title'' = Some t"
    let ?n = "length chunks"
    let ?c = "Suc (uuid_calls st)"
    let ?f = "\<lambda>j. build_record ?pid (build_metadata product ?pid t j) (chunks ! j)
                    (uuid4 (?c + j))"
    have st2: "st2 = snd (ingest_chunks hash uuid4 product ?pid 0 chunks ?st1)"
      using run by simp
    have recs: "embeddings_table st' = embeddings_table st @ map ?f [0..<?n]"
      using ingest_chunks_records[of product t, OF t, of hash uuid4 ?pid 0 chunks ?st1] st2 e'
      by simp
    then have app: "appended_records st st' = map ?f [0..<?n]"
      by (simp add: appended_records_def)
    have vids: "map vector_id (map ?f [0..<?n]) = map (\<lambda>j. uuid4 (?c + j)) [0..<?n]"
      by (simp add: build_record_def)
    have inj_on: "inj_on (\<lambda>j. uuid4 (?c + j)) (set [0..<?n])"
    proof (rule inj_onI)
      fix x y assume "uuid4 (?c + x) = uuid4 (?c + y)"
      with inj have "?c + x = ?c + y" by (rule injD)
      then show "x = y" by simp
    qed
    have img: "(\<lambda>j. uuid4 (?c + j)) ` {0..<?n} = uuid4 ` {?c..<?c + ?n}"
    proof
      show "(\<lambda>j. uuid4 (?c + j)) ` {0..<?n} \<subseteq> uuid4 ` {?c..<?c + ?n}" by auto
      show "uuid4 ` {?c..<?c + ?n} \<subseteq> (\<lambda>j. uuid4 (?c + j)) ` {0..<?n}"
      proof
        fix x assume "x \<in> uuid4 ` {?c..<?c + ?n}"
        then obtain k where k: "x = uuid4 k" "?c \<le> k" "k < ?c + ?n" by auto
        then have "x = uuid4 (?c + (k - ?c))" and "k - ?c \<in> {0..<?n}" by auto
        then show "x \<in> (\<lambda>j. uuid4 (?c + j)) ` {0..<?n}" by (rule image_eqI)
      qed
    qed
    have dom2: "dom (store st2) = dom (store st) \<union> uuid4 ` {?c..<?c + ?n}"
      using ingest_chunks_dom[of product t, OF t, of hash uuid4 ?pid 0 chunks ?st1] st2 by simp
    have disj: "dom (store st) \<inter> uuid4 ` {?c..<?c + ?n} = {}"
    proof -
      have "uuid4 k \<notin> dom (store st)" if "k \<in> {?c..<?c + ?n}" for k
        using fresh that by simp
      then show ?thesis by blast
    qed
    have created: "created_entries st st' = uuid4 ` {?c..<?c + ?n}"
      using dom2 disj s' by (auto simp: created_entries_def)
    have card: "card (uuid4 ` {?c..<?c + ?n}) = ?n"
    proof -
      have "inj_on uuid4 {?c..<?c + ?n}" using inj by (rule inj_on_subset) simp
      then show ?thesis by (simp add: card_image)
    qed
    have link: "\<exists>e. store st' (vector_id (?f i)) = Some e
          \<and> md_chunk_id (metadata e) = er_chunk_id (?f i)
          \<and> er_chunk_id (?f i) = py_str ?pid @ ''_'' @ str_nat i" if "i < ?n" for i
      using ingest_chunks_store_new[of product t, OF t inj that, of hash ?pid 0 ?st1] st2 s'
      by (simp add: build_record_def build_metadata_def)
    show ?thesis
    proof (intro conjI allI impI)
      show "embeddings_table st' = embeddings_table st @ appended_records st st'"
        using recs app by simp
      show "length (appended_records st st') = ?n" using app by simp
      show "card (created_entries st st') = ?n" using created card by simp
      show "distinct (map vector_id (appended_records st st'))"
        unfolding app vids using inj_on by (simp add: distinct_map)
      show "vector_id ` set (appended_records st st') = created_entries st st'"
      proof -
        have "vector_id ` set (appended_records st st')
            = set (map vector_id (map ?f [0..<?n]))" unfolding app by (simp only: set_map)
        also have "\<dots> = (\<lambda>j. uuid4 (?c + j)) ` {0..<?n}" unfolding vids by simp
        finally show ?thesis using img created by simp
      qed
    next
      fix i assume "i < ?n"
      then show "\<exists>e. store st' (vector_id (appended_records st st' ! i)) = Some e
          \<and> md_chunk_id (metadata e) = er_chunk_id (appended_records st st' ! i)
          \<and> er_chunk_id (appended_records st st' ! i) = py_str ?pid @ ''_'' @ str_nat i"
        using link[of i] app by simp
    qed
  qed
  with d c show ?thesis by blast
qed

theorem ingest_linkage_witness:
  "inj sample_uuid4
   \<and> dom (store new_pipeline) = {}
   \<and> ingest_product sample_hash sample_uuid4 new_pipeline sample_product
        = (Inr VNone, sample_result)
   \<and> sample_product ''description'' = Some (VStr sample_description)
   \<and> chunk_text sample_description 100 25 = Inr [sample_description]
   \<and> embeddings_table sample_result
       = embeddings_table new_pipeline @ appended_records new_pipeline sample_result
   \<and> length (appended_records new_pipeline sample_result) = 1
   \<and> card (created_entries new_pipeline sample_result) = 1
   \<and> distinct (map vector_id (appended_records new_pipeline sample_result))
   \<and> vector_id ` set (appended_records new_pipeline sample_result)
       = created_entries new_pipeline sample_result
   \<and> (\<exists>e. store sample_result (vector_id (appended_records new_pipeline sample_result ! 0))
              = Some e
          \<and> md_chunk_id (metadata e)
              = er_chunk_id (appended_records new_pipeline sample_result ! 0)
          \<and> er_chunk_id (appended_records new_pipeline sample_result ! 0) = ''P123_0'')"
proof -
  have empty: "dom (store new_pipeline) = {}" by (simp add: new_pipeline_def)
  then have fresh: "\<forall>k\<ge>uuid_calls new_pipeline. sample_uuid4 k \<notin> dom (store new_pipeline)"
    by simp
  have d: "sample_product ''description'' = Some (VStr sample_description)"
    by (simp add: sample_product_def)
  have pid: "py_str (resolved_id sample_uuid4 new_pipeline sample_product) = ''P123''"
    by (simp add: resolved_id_def dict_get_def sample_product_def)
  from ingest_linkage[OF sample_uuid4_inj fresh sample_run] d sample_chunks pid
  have "embeddings_table sample_result
       = embeddings_table new_pipeline @ appended_records new_pipeline sample_result
   \<and> length (appended_records new_pipeline sample_result) = 1
   \<and> card (created_entries new_pipeline sample_result) = 1
   \<and> distinct (map vector_id (appended_records new_pipeline sample_result))
   \<and> vector_id ` set (appended_records new_pipeline sample_result)
       = created_entries new_pipeline sample_result
   \<and> (\<exists>e. store sample_result (vector_id (appended_records new_pipeline sample_result ! 0))
              = Some e
          \<and> md_chunk_id (metadata e)
              = er_chunk_id (appended_records new_pipeline sample_result ! 0)
          \<and> er_chunk_id (appended_records new_pipeline sample_result ! 0)
              = ''P123'' @ ''_'' @ str_nat 0)"
    by simp
  with sample_uuid4_inj empty sample_run d sample_chunks show ?thesis
    by (simp add: str_nat_0)
qed

text \<open>
  C6. The function has no \<^verbatim>\<open>return\<close> statement: the sample run succeeds and its
  value is \<^verbatim>\<open>None\<close>, not a result holding the product id and the chunk count.
\<close>

theorem ingest_result_counterexample:
  "fst (ingest_product sample_hash sample_uuid4 new_pipeline sample_product) = Inr VNone"
  by (simp add: sample_run)

text \<open>
  C6, as the code has it. Every successful call returns \<^verbatim>\<open>None\<close>; the product has
  a string description, and the resolved product id and the number of chunks appear only
  in the one line the call prints.
\<close>

theorem ingest_result:
  assumes "ingest_product hash uuid4 st product = (Inr r, st')"
  shows "r = VNone \<and>
     (\<exists>d chunks. product ''description'' = Some (VStr d) \<and> chunk_text d 100 25 = Inr chunks
        \<and> stdout st' = stdout st @
             [''Ingested product: '' @ py_str (resolved_id uuid4 st product) @ '' with '' @
              str_nat (length chunks) @ '' chunks''])"
proof -
  from ingest_product_success[OF assms] obtain d chunks st2 where
    d: "product ''description'' = Some (VStr d)" and c: "chunk_text d 100 25 = Inr chunks"
    and run: "ingest_chunks hash uuid4 product (resolved_id uuid4 st product) 0 chunks
           (st\<lparr>uuid_calls := Suc (uuid_calls st),
              products_table := (products_table st)(resolved_id uuid4 st product \<mapsto> product)\<rparr>)
          = (None, st2)"
    and r: "r = VNone"
    and st': "st' = st2\<lparr>stdout := stdout st2 @
                       [''Ingested product: '' @ py_str (resolved_id uuid4 st product) @ '' with '' @
                        str_nat (length chunks) @ '' chunks'']\<rparr>"
    by blast
  have "stdout st2 = stdout st"
  proof (cases "product ''title''")
    case None
    have "chunks = []"
    proof (rule ccontr)
      assume "chunks \<noteq> []"
      from ingest_chunks_no_title[of product, OF None this] run show False by simp
    qed
    with run show ?thesis by auto
  next
    case (Some t)
    from ingest_chunks_frame[of product t, OF Some, of hash uuid4 "resolved_id uuid4 st product"
        0 chunks "st\<lparr>uuid_calls := Suc (uuid_calls st),
              products_table := (products_table st)(resolved_id uuid4 st product \<mapsto> product)\<rparr>"]
      run show ?thesis by simp
  qed
  with d c r st' show ?thesis by simp
qed

theorem ingest_result_witness:
  "ingest_product sample_hash sample_uuid4 new_pipeline sample_product
     = (Inr VNone, sample_result)
   \<and> (\<exists>d chunks. sample_product ''description'' = Some (VStr d)
        \<and> chunk_text d 100 25 = Inr chunks
        \<and> stdout sample_result = stdout new_pipeline @
             [''Ingested product: '' @
              py_str (resolved_id sample_uuid4 new_pipeline sample_product) @ '' with '' @
              str_nat (length chunks) @ '' chunks''])"
  using ingest_result[OF sample_run] sample_run by blast

text \<open>
  C7. An \<^verbatim>\<open>id\<close> that is present is used whatever its value: with the empty string
  the product is stored under the empty string and the printed line shows an empty id,
  and with \<^verbatim>\<open>None\<close> the id is \<^verbatim>\<open>None\<close>. No identifier is generated for them.
\<close>

theorem product_id_counterexample:
  "products_table (snd (ingest_product sample_hash sample_uuid4 new_pipeline
       [''id'' \<mapsto> VStr '''', ''title'' \<mapsto> VStr ''T'', ''description'' \<mapsto> VStr ''a'']))
     (VStr '''')
    = Some [''id'' \<mapsto> VStr '''', ''title'' \<mapsto> VStr ''T'', ''description'' \<mapsto> VStr ''a'']
   \<and> stdout (snd (ingest_product sample_hash sample_uuid4 new_pipeline
       [''id'' \<mapsto> VStr '''', ''title'' \<mapsto> VStr ''T'', ''description'' \<mapsto> VStr ''a'']))
    = [''Ingested product:  with 1 chunks'']
   \<and> stdout (snd (ingest_product sample_hash sample_uuid4 new_pipeline
       [''id'' \<mapsto> VNone, ''title'' \<mapsto> VStr ''T'', ''description'' \<mapsto> VStr ''a'']))
    = [''Ingested product: None with 1 chunks'']"
proof -
  have c: "chunk_text ''a'' 100 25 = Inr [''a'']" by code_simp
  show ?thesis
    by (simp add: ingest_product_unfold c ingest_chunk_def upsert_def Let_def
        resolved_id_def dict_get_def new_pipeline_def str_nat_1)
qed

text \<open>
  C7, as the code has it. The product is stored under the value of its \<^verbatim>\<open>id\<close> key
  whenever the key is present, and under the freshly drawn identifier only when the key
  is absent. One identifier is drawn on every call, so the draw counter moves on and a
  later call gets a later draw.
\<close>

theorem product_id_resolution:
  "products_table (snd (ingest_product hash uuid4 st product))
     = (products_table st)
         ((case product ''id'' of Some v \<Rightarrow> v | None \<Rightarrow> VStr (uuid4 (uuid_calls st)))
            \<mapsto> product)
   \<and> resolved_id uuid4 st product
       = (case product ''id'' of Some v \<Rightarrow> v | None \<Rightarrow> VStr (uuid4 (uuid_calls st)))
   \<and> uuid_calls st < uuid_calls (snd (ingest_product hash uuid4 st product))"
proof -
  let ?pid = "resolved_id uuid4 st product"
  let ?st1 = "st\<lparr>uuid_calls := Suc (uuid_calls st),
              products_table := (products_table st)(?pid \<mapsto> product)\<rparr>"
  have pid: "?pid = (case product ''id'' of Some v \<Rightarrow> v | None \<Rightarrow> VStr (uuid4 (uuid_calls st)))"
    by (simp add: resolved_id_def dict_get_def)
  have loop: "products_table (snd (ingest_chunks hash uuid4 product ?pid 0 chunks ?st1))
                = (products_table st)(?pid \<mapsto> product)
            \<and> uuid_calls st < uuid_calls (snd (ingest_chunks hash uuid4 product ?pid 0 chunks ?st1))"
    for chunks
    using ingest_chunks_products_table[of hash uuid4 product ?pid 0 chunks ?st1]
      ingest_chunks_uuid_calls[of ?st1 hash uuid4 product ?pid 0 chunks]
    by simp
  have "products_table (snd (ingest_product hash uuid4 st product))
          = (products_table st)(?pid \<mapsto> product)
      \<and> uuid_calls st < uuid_calls (snd (ingest_product hash uuid4 st product))"
  proof (cases "product ''description''")
    case None
    then show ?thesis by (simp add: ingest_product_unfold)
  next
    case (Some v)
    show ?thesis
    proof (cases "chunk_text_dyn v 100 25")
      case (Inl e)
      with Some show ?thesis by (simp add: ingest_product_unfold)
    next
      case (Inr chunks)
      obtain e st2 where run: "ingest_chunks hash uuid4 product ?pid 0 chunks ?st1 = (e, st2)"
        by (cases "ingest_chunks hash uuid4 product ?pid 0 chunks ?st1") blast
      with loop[of chunks] have "products_table st2 = (products_table st)(?pid \<mapsto> product)"
        and "uuid_calls st < uuid_calls st2" by simp_all
      with Some Inr run show ?thesis
        by (cases e) (simp_all add: ingest_product_unfold)
    qed
  qed
  with pid show ?thesis by simp
qed

text \<open>
  C10. For every product whose description is a string of whitespace only (the empty
  string included) the call succeeds, the chunker returns no chunk, the embeddings
  table and the vector store are unchanged, and the products table holds the product
  under the resolved product id. A title is not needed.
\<close>

theorem ingest_blank_description:
  assumes "product ''description'' = Some (VStr d)" and "\<forall>c\<in>set d. is_space c"
  shows "chunk_text d 100 25 = Inr []
       \<and> fst (ingest_product hash uuid4 st product) = Inr VNone
       \<and> embeddings_table (snd (ingest_product hash uuid4 st product)) = embeddings_table st
       \<and> store (snd (ingest_product hash uuid4 st product)) = store st
       \<and> products_table (snd (ingest_product hash uuid4 st product))
            (resolved_id uuid4 st product) = Some product"
  using assms(1) chunk_text_blank[OF assms(2)] by (simp add: ingest_product_unfold)

theorem ingest_blank_description_witness:
  "[''description'' \<mapsto> VStr ''  ''] ''description'' = Some (VStr ''  '')
   \<and> list_all is_space ''  ''
   \<and> chunk_text ''  '' 100 25 = Inr []
   \<and> fst (ingest_product sample_hash sample_uuid4 new_pipeline [''description'' \<mapsto> VStr ''  ''])
       = Inr VNone
   \<and> embeddings_table (snd (ingest_product sample_hash sample_uuid4 new_pipeline
        [''description'' \<mapsto> VStr ''  ''])) = []
   \<and> store (snd (ingest_product sample_hash sample_uuid4 new_pipeline
        [''description'' \<mapsto> VStr ''  ''])) = Map.empty
   \<and> products_table (snd (ingest_product sample_hash sample_uuid4 new_pipeline
        [''description'' \<mapsto> VStr ''  ''])) (VStr ''u'') = Some [''description'' \<mapsto> VStr ''  '']"
proof -
  have sp: "\<forall>c\<in>set ''  ''. is_space c" by (simp add: is_space_def)
  have d: "[''description'' \<mapsto> VStr ''  ''] ''description'' = Some (VStr ''  '')" by simp
  have sp': "list_all is_space ''  ''" by (simp add: is_space_def)
  from ingest_blank_description[of "[''description'' \<mapsto> VStr ''  '']" "''  ''"
         sample_hash sample_uuid4 new_pipeline, OF d sp] sp'
  show ?thesis
    by (simp add: resolved_id_def dict_get_def new_pipeline_def sample_uuid4_def)
qed

end
